theory Spec2Isabelle
  imports Main
begin

section \<open>Streambench zero-shot agents: the response parsers of \<^verbatim>\<open>zeroshot.py\<close>\<close>

text \<open>
  The file embeds the three pieces of \<^verbatim>\<open>src/zeroshot.py\<close> that carry logic of their own:
  \<^verbatim>\<open>ClassificationAgent.extract_label\<close>, \<^verbatim>\<open>SQLGenerationAgent.parse_sql\<close> and the
  benchmark dispatch of the \<^verbatim>\<open>__main__\<close> block. Model loading, tokenisation and decoding
  belong to external libraries and are not modelled.

  Conventions of the embedding:
  \<^item> A Python \<^verbatim>\<open>str\<close> is a \<^typ>\<open>string\<close>; a \<^typ>\<open>char\<close> stands for a code point below 256.
    In that range the class \<^verbatim>\<open>\d\<close> of \<^verbatim>\<open>re\<close> is exactly \<^verbatim>\<open>0\<close> to \<^verbatim>\<open>9\<close>. Python's \<^verbatim>\<open>\d\<close>
    also accepts the decimal digits of other scripts; texts with such code points are
    outside the model.
  \<^item> Python integers are unbounded, so they are \<^typ>\<open>int\<close>. The conversions between
    integers and decimal strings, \<^verbatim>\<open>int()\<close> and \<^verbatim>\<open>str()\<close>, raise \<^verbatim>\<open>ValueError\<close> beyond a
    number of digits that is a setting of the interpreter; the model takes the default, 4300.
  \<^item> A raised exception is the left injection of a sum type.
  \<^item> \<^verbatim>\<open>print\<close> is modelled by returning the list of warnings printed, next to the result.
  \<^item> The process-wide random source is a parameter \<open>r\<close>: the raw draw that
    \<^verbatim>\<open>random.choice\<close> reduces to an index of the sequence.
\<close>

subsection \<open>Python values, errors and warnings\<close>

datatype py_error = IndexError | ValueError string

text \<open>
  The keys of \<^verbatim>\<open>label2desc\<close>: the annotation says \<^verbatim>\<open>dict[str, str]\<close>, the membership test
  \<^verbatim>\<open>int(number) in label2desc\<close> looks for an \<^verbatim>\<open>int\<close>. Python does not enforce the annotation,
  so both kinds of key are values of the model. Equality of these values is Python's \<^verbatim>\<open>==\<close> on
  these two types: an \<^verbatim>\<open>int\<close> never equals a \<^verbatim>\<open>str\<close>.
\<close>

datatype pyval = PyInt int | PyStr string

text \<open>
  A \<^verbatim>\<open>dict\<close> in insertion order; \<^verbatim>\<open>label2desc.keys()\<close> is the list of first components.
  The keys of a \<^verbatim>\<open>dict\<close> are distinct. No statement below needs that, so the theorems are
  stated for every list of pairs.
\<close>

type_synonym label2desc = "(pyval \<times> string) list"

definition keys :: "label2desc \<Rightarrow> pyval list" where
  "keys label2desc = map fst label2desc"

text \<open>The three messages \<^verbatim>\<open>extract_label\<close> prints and the one of \<^verbatim>\<open>parse_sql\<close>, with the
  values formatted into them.\<close>

datatype warning =
    NotFoundInLabelSet string
  | NotExactlyOne "string list"
  | NoExtractedNumbers string
  | NoSQLCodeFound

subsection \<open>\<^verbatim>\<open>int()\<close>, \<^verbatim>\<open>str()\<close> and \<^verbatim>\<open>random.choice\<close>\<close>

definition isdigit :: "char \<Rightarrow> bool" where
  "isdigit c = (c \<in> set ''0123456789'')"

definition digit_val :: "char \<Rightarrow> nat" where
  "digit_val c = of_char c - 48"

definition digit_char :: "nat \<Rightarrow> char" where
  "digit_char d = ''0123456789'' ! d"

text \<open>The decimal writing of a natural number, without leading zeros.\<close>

fun str_nat :: "nat \<Rightarrow> string" where
  "str_nat n =
     (if n < 10 then [digit_char n] else str_nat (n div 10) @ [digit_char (n mod 10)])"

declare str_nat.simps [simp del]

text \<open>
  Both conversions between integers and decimal strings refuse more digits than the
  interpreter's limit and raise \<^verbatim>\<open>ValueError\<close>. The limit is a setting of the interpreter;
  the model takes its default, \<^verbatim>\<open>sys.int_info.default_max_str_digits\<close>.
\<close>

definition default_max_str_digits :: nat where
  "default_max_str_digits = 4300"

definition limit_message :: string where
  "limit_message =
     ''Exceeds the limit ('' @ str_nat default_max_str_digits
       @ '' digits) for integer string conversion''"

text \<open>The value of a run of digits read in base ten; leading zeros do not count.\<close>

definition digits_value :: "string \<Rightarrow> nat" where
  "digits_value s = foldl (\<lambda>a c. 10 * a + digit_val c) 0 s"

text \<open>
  \<^verbatim>\<open>int(s)\<close> on a non-empty run of digits is its decimal value, leading zeros allowed, unless
  the run has more characters than the limit (leading zeros are counted): then it raises.
  The source only ever passes a capture of \<^verbatim>\<open>\d+\<close>; on any other string the model answers
  \<^verbatim>\<open>ValueError\<close> (Python's \<^verbatim>\<open>int\<close> would also accept a sign, blanks and underscores, which no
  capture contains).
\<close>

definition py_int :: "string \<Rightarrow> py_error + int" where
  "py_int s =
     (if s = [] \<or> \<not> list_all isdigit s
      then Inl (ValueError ''invalid literal for int() with base 10'')
      else if default_max_str_digits < length s
      then Inl (ValueError (limit_message @ '': value has '' @ str_nat (length s)
             @ '' digits; use sys.set_int_max_str_digits() to increase the limit''))
      else Inr (int (digits_value s)))"

text \<open>
  \<^verbatim>\<open>str(v)\<close>: a string is returned as it is, an integer in decimal with its sign. An integer
  with more decimal digits than the limit (the sign is not counted) raises.
\<close>

definition decimal_digits :: "int \<Rightarrow> nat" where
  "decimal_digits i = length (str_nat (nat \<bar>i\<bar>))"

fun py_str :: "pyval \<Rightarrow> py_error + string" where
  "py_str (PyStr s) = Inr s"
| "py_str (PyInt i) =
     (if default_max_str_digits < decimal_digits i
      then Inl (ValueError (limit_message
             @ ''; use sys.set_int_max_str_digits() to increase the limit''))
      else Inr (if i < 0 then CHR ''-'' # str_nat (nat \<bar>i\<bar>) else str_nat (nat \<bar>i\<bar>)))"

text \<open>
  \<^verbatim>\<open>random.choice(seq)\<close> raises \<^verbatim>\<open>IndexError\<close> on an empty sequence and otherwise returns
  the element at an index below \<^verbatim>\<open>len(seq)\<close> drawn from the random source.
\<close>

definition random_choice :: "nat \<Rightarrow> 'a list \<Rightarrow> py_error + 'a" where
  "random_choice r seq =
     (if seq = [] then Inl IndexError else Inr (seq ! (r mod length seq)))"

text \<open>Sequencing of two steps that may raise: the second runs on the value of the first.\<close>

definition and_then :: "py_error + 'a \<Rightarrow> ('a \<Rightarrow> py_error + 'b) \<Rightarrow> py_error + 'b" where
  "and_then x f = (case x of Inl e \<Rightarrow> Inl e | Inr v \<Rightarrow> f v)"

subsection \<open>\<^verbatim>\<open>re.findall(r"(\d+)\.", pred_text)\<close>\<close>

text \<open>
  One attempt of the pattern at the start of \<open>s\<close>: \<^verbatim>\<open>\d+\<close> is greedy and takes the whole
  run of digits; the next character must be the period. Giving digits back cannot help,
  since the character after a shorter run is a digit (lemma \<open>match_number_iff\<close>). The result
  is the captured group and the text after the match.
\<close>

definition match_number :: "string \<Rightarrow> (string \<times> string) option" where
  "match_number s =
     (let ds = takeWhile isdigit s; rest = dropWhile isdigit s
      in if ds \<noteq> [] then
           (case rest of
              [] \<Rightarrow> None
            | c # rest' \<Rightarrow> if c = CHR ''.'' then Some (ds, rest') else None)
         else None)"

text \<open>
  \<^verbatim>\<open>findall\<close> scans from the left: where the pattern matches, the group is collected and
  the scan goes on behind the match; where it does not, the scan moves one character on.
  A match consumes at least the period, so the scan terminates.
\<close>

function findall :: "string \<Rightarrow> string list" where
  "findall [] = []"
| "findall (c # cs) =
     (case match_number (c # cs) of
        Some (ds, rest) \<Rightarrow> ds # findall rest
      | None \<Rightarrow> findall cs)"
  by pat_completeness auto
termination
proof (relation "measure length", goal_cases)
  case 1
  show ?case by simp
next
  case 2
  show ?case by simp
next
  case (3 c cs p ds rest)
  then have "dropWhile isdigit (c # cs) = CHR ''.'' # rest"
    by (auto simp: match_number_def Let_def split: if_splits list.splits)
  moreover have "length (dropWhile isdigit (c # cs)) \<le> length (c # cs)"
    by (rule length_dropWhile_le)
  ultimately show ?case by simp
qed

subsection \<open>\<^verbatim>\<open>ClassificationAgent.extract_label\<close>\<close>

definition extract_label ::
  "nat \<Rightarrow> string \<Rightarrow> label2desc \<Rightarrow> warning list \<times> (py_error + string)" where
  "extract_label r pred_text label2desc =
     (let numbers = findall pred_text in
      if length numbers = 1 then
        (let number = numbers ! 0 in
         case py_int number of
           Inl e \<Rightarrow> ([], Inl e)
         | Inr n \<Rightarrow>
             if PyInt n \<in> set (keys label2desc)
             then ([], py_str (PyStr number))
             else ([NotFoundInLabelSet pred_text],
                   and_then (random_choice r (keys label2desc)) py_str))
      else if length numbers > 1 then
        ([NotExactlyOne numbers], py_str (PyStr (numbers ! 0)))
      else
        ([NoExtractedNumbers pred_text],
         and_then (random_choice r (keys label2desc)) py_str))"

text \<open>
  In the source \<^verbatim>\<open>prediction\<close> is either the captured string or a key of the dictionary;
  \<^verbatim>\<open>str(prediction)\<close> is applied on every path. The branch taken shows in the warning
  printed: none on the validated path, one on each of the other three. When \<^verbatim>\<open>int(number)\<close>
  raises, nothing has been printed yet. In the two fallback branches the message is printed
  before \<^verbatim>\<open>random.choice\<close> and \<^verbatim>\<open>str\<close> are called, so it is part of the output also when one
  of them raises.
\<close>

subsection \<open>\<^verbatim>\<open>SQLGenerationAgent.parse_sql\<close>\<close>

text \<open>\<^verbatim>\<open>s.startswith(p)\<close>.\<close>

fun startswith :: "string \<Rightarrow> string \<Rightarrow> bool" where
  "startswith s [] = True"
| "startswith [] (p # ps) = False"
| "startswith (c # cs) (p # ps) = (c = p \<and> startswith cs ps)"

text \<open>
  \<^verbatim>\<open>str.strip()\<close> without argument removes the characters for which \<^verbatim>\<open>str.isspace\<close> holds
  from both ends. Below code point 256 these are the twelve listed.
\<close>

definition isspace :: "char \<Rightarrow> bool" where
  "isspace c =
     (c \<in> set [CHR 0x09, CHR 0x0A, CHR 0x0B, CHR 0x0C, CHR 0x0D, CHR 0x1C, CHR 0x1D,
               CHR 0x1E, CHR 0x1F, CHR 0x20, CHR 0x85, CHR 0xA0])"

definition strip :: "string \<Rightarrow> string" where
  "strip s = rev (dropWhile isspace (rev (dropWhile isspace s)))"

text \<open>
  The pattern is \<^verbatim>\<open>```sql([\s\S]*?)```\<close>. The class \<^verbatim>\<open>[\s\S]\<close> accepts every character, line
  breaks included, and \<^verbatim>\<open>*?\<close> is lazy: behind the opening fence the engine first tries the
  closing fence and only when that fails takes one more character into the group.
  \<open>match_body\<close> is this loop, \<open>match_sql\<close> one attempt of the whole pattern at the start of
  \<open>s\<close>, and \<open>search_sql\<close> is \<^verbatim>\<open>re.search\<close>: the attempt at the leftmost position that
  succeeds. The value is group 1.
\<close>

fun match_body :: "string \<Rightarrow> string option" where
  "match_body [] = None"
| "match_body (c # cs) =
     (if startswith (c # cs) ''```'' then Some []
      else map_option ((#) c) (match_body cs))"

definition match_sql :: "string \<Rightarrow> string option" where
  "match_sql s = (if startswith s ''```sql'' then match_body (drop 6 s) else None)"

fun search_sql :: "string \<Rightarrow> string option" where
  "search_sql [] = None"
| "search_sql (c # cs) =
     (case match_sql (c # cs) of
        Some g \<Rightarrow> Some g
      | None \<Rightarrow> search_sql cs)"

definition parse_sql :: "string \<Rightarrow> warning list \<times> string" where
  "parse_sql pred_text =
     (case search_sql pred_text of
        Some sql_code \<Rightarrow> ([], strip sql_code)
      | None \<Rightarrow> ([NoSQLCodeFound], pred_text))"

subsection \<open>The dispatch of the \<^verbatim>\<open>__main__\<close> block\<close>

text \<open>
  The \<^verbatim>\<open>if\<close>/\<^verbatim>\<open>elif\<close>/\<^verbatim>\<open>else\<close> on \<^verbatim>\<open>args.bench_name\<close>: the value is the pair of \<^verbatim>\<open>max_tokens\<close>
  and \<^verbatim>\<open>agent_name\<close>, or the \<^verbatim>\<open>ValueError\<close> raised with its message.
\<close>

datatype agent = ClassificationAgent | SQLGenerationAgent

definition select_agent :: "string \<Rightarrow> py_error + (int \<times> agent)" where
  "select_agent bench_name =
     (if startswith bench_name ''classification'' then Inr (32, ClassificationAgent)
      else if startswith bench_name ''sql_generation'' then Inr (512, SQLGenerationAgent)
      else Inl (ValueError (''Invalid benchmark name: '' @ bench_name)))"

section \<open>Auxiliary facts\<close>

subsection \<open>Digits, \<^verbatim>\<open>int()\<close> and \<^verbatim>\<open>str()\<close>\<close>

lemma isdigit_period [simp]: "\<not> isdigit CHR ''.''"
  by (simp add: isdigit_def)

lemma isdigit_minus [simp]: "\<not> isdigit CHR ''-''"
  by (simp add: isdigit_def)

lemma match_number_iff:
  "match_number s = Some (ds, rest) \<longleftrightarrow>
     ds \<noteq> [] \<and> list_all isdigit ds \<and> s = ds @ CHR ''.'' # rest"
proof
  assume a: "match_number s = Some (ds, rest)"
  have id: "takeWhile isdigit s @ dropWhile isdigit s = s"
    by (rule takeWhile_dropWhile_id)
  have all: "list_all isdigit (takeWhile isdigit s)"
    by (simp add: list_all_iff) (meson set_takeWhileD)
  from a have "ds = takeWhile isdigit s" and "ds \<noteq> []"
    and "dropWhile isdigit s = CHR ''.'' # rest"
    by (auto simp: match_number_def Let_def split: if_splits list.splits)
  with id all show "ds \<noteq> [] \<and> list_all isdigit ds \<and> s = ds @ CHR ''.'' # rest"
    by metis
next
  assume a: "ds \<noteq> [] \<and> list_all isdigit ds \<and> s = ds @ CHR ''.'' # rest"
  then have tw: "takeWhile isdigit s = ds" and dw: "dropWhile isdigit s = CHR ''.'' # rest"
    by (simp_all add: list_all_iff)
  with a show "match_number s = Some (ds, rest)"
    by (simp add: match_number_def)
qed

lemma findall_digits:
  "ds \<in> set (findall s) \<Longrightarrow> ds \<noteq> [] \<and> list_all isdigit ds"
proof (induction s rule: findall.induct)
  case 1
  then show ?case by simp
next
  case (2 c cs)
  show ?case
  proof (cases "match_number (c # cs)")
    case None
    with 2 show ?thesis by simp
  next
    case (Some p)
    obtain d rest where p: "p = (d, rest)" by (cases p)
    with Some have m: "match_number (c # cs) = Some (d, rest)" by simp
    then have "d \<noteq> [] \<and> list_all isdigit d" by (simp add: match_number_iff)
    with 2 m show ?thesis by auto
  qed
qed

lemma py_int_digits:
  "ds \<noteq> [] \<Longrightarrow> list_all isdigit ds \<Longrightarrow> length ds \<le> default_max_str_digits \<Longrightarrow>
     py_int ds = Inr (int (digits_value ds))"
  by (simp add: py_int_def)

lemma py_int_too_long:
  "ds \<noteq> [] \<Longrightarrow> list_all isdigit ds \<Longrightarrow> default_max_str_digits < length ds \<Longrightarrow>
     py_int ds = Inl (ValueError (limit_message @ '': value has '' @ str_nat (length ds)
             @ '' digits; use sys.set_int_max_str_digits() to increase the limit''))"
  by (simp add: py_int_def)

lemma py_int_Inr:
  "py_int ds = Inr n \<Longrightarrow> n = int (digits_value ds) \<and> length ds \<le> default_max_str_digits"
  by (auto simp: py_int_def split: if_splits)

lemma isdigit_digit_char: "d < 10 \<Longrightarrow> isdigit (digit_char d)"
proof -
  assume "d < 10"
  then have "d \<in> {0,1,2,3,4,5,6,7,8,9}" by auto
  then show ?thesis by (auto simp: isdigit_def digit_char_def)
qed

lemma digit_val_digit_char: "d < 10 \<Longrightarrow> digit_val (digit_char d) = d"
proof -
  assume "d < 10"
  then have "d \<in> {0,1,2,3,4,5,6,7,8,9}" by auto
  then show ?thesis by (auto simp: digit_val_def digit_char_def)
qed


lemma str_nat_digits: "str_nat n \<noteq> [] \<and> list_all isdigit (str_nat n)"
proof (induction n rule: str_nat.induct)
  case (1 n)
  show ?case
  proof (cases "n < 10")
    case True
    then show ?thesis by (simp add: str_nat.simps [of n] isdigit_digit_char)
  next
    case False
    with 1 show ?thesis by (simp add: str_nat.simps [of n] isdigit_digit_char)
  qed
qed

lemma digits_value_snoc: "digits_value (xs @ [c]) = 10 * digits_value xs + digit_val c"
  by (simp add: digits_value_def)

lemma digits_value_str_nat: "digits_value (str_nat n) = n"
proof (induction n rule: str_nat.induct)
  case (1 n)
  show ?case
  proof (cases "n < 10")
    case True
    then show ?thesis
      by (simp add: str_nat.simps [of n] digits_value_def digit_val_digit_char)
  next
    case False
    with 1 show ?thesis
      by (simp add: str_nat.simps [of n] digits_value_snoc digit_val_digit_char)
  qed
qed



lemma foldl_digits_ge: "a \<le> foldl (\<lambda>a c. 10 * a + digit_val c) a cs"
proof (induction cs arbitrary: a)
  case Nil
  then show ?case by simp
next
  case (Cons c cs)
  have "a \<le> 10 * a + digit_val c" by simp
  also have "\<dots> \<le> foldl (\<lambda>a c. 10 * a + digit_val c) (10 * a + digit_val c) cs"
    by (rule Cons.IH)
  finally show ?case by simp
qed

lemma digits_value_two: "10 * digit_val c \<le> digits_value (c # c' # cs)"
proof -
  have "10 * digit_val c \<le> 10 * digit_val c + digit_val c'" by simp
  also have "\<dots> \<le> foldl (\<lambda>a c. 10 * a + digit_val c) (10 * digit_val c + digit_val c') cs"
    by (rule foldl_digits_ge)
  finally show ?thesis by (simp add: digits_value_def)
qed

lemma py_str_Inr:
  "decimal_digits i \<le> default_max_str_digits \<Longrightarrow> \<exists>s. py_str (PyInt i) = Inr s"
  by simp

lemma py_str_digits_value:
  assumes "py_str (PyInt i) = Inr ds" and "list_all isdigit ds"
  shows "int (digits_value ds) = i"
proof (cases "i < 0")
  case True
  with assms show ?thesis by (auto split: if_splits)
next
  case False
  with assms(1) have "ds = str_nat (nat i)" by (auto split: if_splits)
  with False show ?thesis by (simp add: digits_value_str_nat)
qed

lemma random_choice_member:
  "seq \<noteq> [] \<Longrightarrow> \<exists>x\<in>set seq. random_choice r seq = Inr x"
  by (simp add: random_choice_def)

subsection \<open>The tokens found by \<^verbatim>\<open>findall\<close>\<close>

lemma match_number_None_iff:
  "match_number s = None \<longleftrightarrow>
     \<not> (\<exists>g q. g \<noteq> [] \<and> list_all isdigit g \<and> s = g @ CHR ''.'' # q)"
proof (cases "match_number s")
  case None
  have "\<not> (\<exists>g q. g \<noteq> [] \<and> list_all isdigit g \<and> s = g @ CHR ''.'' # q)"
  proof
    assume "\<exists>g q. g \<noteq> [] \<and> list_all isdigit g \<and> s = g @ CHR ''.'' # q"
    then obtain g q where "match_number s = Some (g, q)"
      using match_number_iff by blast
    with None show False by simp
  qed
  with None show ?thesis by simp
next
  case (Some p)
  obtain g q where "p = (g, q)" by (cases p)
  with Some have "g \<noteq> [] \<and> list_all isdigit g \<and> s = g @ CHR ''.'' # q"
    by (simp add: match_number_iff)
  then have "\<exists>g q. g \<noteq> [] \<and> list_all isdigit g \<and> s = g @ CHR ''.'' # q" by blast
  with Some show ?thesis by simp
qed

lemma findall_leftmost:
  "findall s = d # ds \<Longrightarrow>
     \<exists>pre post. s = pre @ d @ CHR ''.'' # post
       \<and> (\<forall>i<length pre. match_number (drop i s) = None)
       \<and> findall post = ds"
proof (induction s rule: findall.induct)
  case 1
  then show ?case by simp
next
  case (2 c cs)
  show ?case
  proof (cases "match_number (c # cs)")
    case (Some p)
    obtain g rest where p: "p = (g, rest)" by (cases p)
    with Some have m: "match_number (c # cs) = Some (g, rest)" by simp
    with "2.prems" have "g = d" and "findall rest = ds" by simp_all
    moreover from m have "c # cs = g @ CHR ''.'' # rest" by (simp add: match_number_iff)
    ultimately have "c # cs = [] @ d @ CHR ''.'' # rest
       \<and> (\<forall>i<length ([]::string). match_number (drop i (c # cs)) = None)
       \<and> findall rest = ds" by simp
    then show ?thesis by blast
  next
    case None
    with "2.prems" have "findall cs = d # ds" by simp
    from "2.IH"(1) [OF None this] obtain pre post where cs: "cs = pre @ d @ CHR ''.'' # post"
      and first: "\<forall>i<length pre. match_number (drop i cs) = None"
      and rest: "findall post = ds" by blast
    have "match_number (drop i (c # cs)) = None" if "i < length (c # pre)" for i
    proof (cases i)
      case 0
      with None show ?thesis by simp
    next
      case (Suc i')
      with that first show ?thesis by simp
    qed
    with cs rest have "c # cs = (c # pre) @ d @ CHR ''.'' # post
       \<and> (\<forall>i<length (c # pre). match_number (drop i (c # cs)) = None)
       \<and> findall post = ds" by simp
    then show ?thesis by blast
  qed
qed

subsection \<open>The branches of \<^verbatim>\<open>extract_label\<close>\<close>

lemma list_three_cases:
  "xs = [] \<or> (\<exists>x. xs = [x]) \<or> (\<exists>x y zs. xs = x # y # zs)"
proof (cases xs)
  case Nil
  then show ?thesis by simp
next
  case (Cons x ys)
  then show ?thesis by (cases ys) simp_all
qed

lemma findall_single_digits:
  assumes "findall pred_text = [number]"
  shows "number \<noteq> [] \<and> list_all isdigit number"
proof -
  from assms have "number \<in> set (findall pred_text)" by simp
  then show ?thesis by (rule findall_digits)
qed

lemma findall_single_token:
  assumes "ds \<noteq> []" and "list_all isdigit ds"
  shows "findall (ds @ ''.'') = [ds]"
proof -
  from assms(1) obtain c cs where cs: "ds @ ''.'' = c # cs" by (cases ds) auto
  from assms have "match_number (ds @ ''.'') = Some (ds, [])" by (simp add: match_number_iff)
  with cs show ?thesis by simp
qed

lemma extract_label_single_valid:
  assumes "findall pred_text = [number]" and "py_int number = Inr n"
    and "PyInt n \<in> set (keys label2desc)"
  shows "extract_label r pred_text label2desc = ([], Inr number)"
  using assms by (simp add: extract_label_def)

lemma extract_label_single_invalid:
  assumes "findall pred_text = [number]" and "py_int number = Inr n"
    and "PyInt n \<notin> set (keys label2desc)"
  shows "extract_label r pred_text label2desc =
           ([NotFoundInLabelSet pred_text], and_then (random_choice r (keys label2desc)) py_str)"
  using assms by (simp add: extract_label_def)

lemma extract_label_single_raises:
  assumes "findall pred_text = [number]" and "py_int number = Inl e"
  shows "extract_label r pred_text label2desc = ([], Inl e)"
  using assms by (simp add: extract_label_def)

lemma extract_label_none:
  assumes "findall pred_text = []"
  shows "extract_label r pred_text label2desc =
           ([NoExtractedNumbers pred_text], and_then (random_choice r (keys label2desc)) py_str)"
  using assms by (simp add: extract_label_def)

lemma extract_label_long_token:
  assumes "findall pred_text = [number]" and "default_max_str_digits < length number"
  shows "extract_label r pred_text label2desc =
           ([], Inl (ValueError (limit_message @ '': value has '' @ str_nat (length number)
             @ '' digits; use sys.set_int_max_str_digits() to increase the limit'')))"
proof -
  from assms(1) have "number \<noteq> []" and "list_all isdigit number"
    using findall_single_digits by blast+
  with assms(2) show ?thesis
    using extract_label_single_raises [OF assms(1)] py_int_too_long by blast
qed

lemma fallback_member:
  assumes "label2desc \<noteq> []"
  shows "\<exists>k\<in>set (keys label2desc).
           and_then (random_choice r (keys label2desc)) py_str = py_str k"
proof -
  from assms have "keys label2desc \<noteq> []" by (simp add: keys_def)
  then obtain k where "k \<in> set (keys label2desc)" "random_choice r (keys label2desc) = Inr k"
    using random_choice_member by blast
  then show ?thesis by (auto simp: and_then_def)
qed

lemma key_str:
  assumes "\<forall>i. PyInt i \<in> set (keys label2desc) \<longrightarrow> decimal_digits i \<le> default_max_str_digits"
    and "k \<in> set (keys label2desc)"
  shows "\<exists>s. py_str k = Inr s"
proof (cases k)
  case (PyInt i)
  with assms show ?thesis using py_str_Inr by blast
next
  case (PyStr s)
  then show ?thesis by simp
qed

lemma long_run: "replicate 4301 c = c # c # replicate 4299 c"
proof -
  have e: "(4301::nat) = Suc (Suc 4299)" by simp
  show ?thesis by (subst e) (simp only: replicate.simps)
qed

lemma long_run_length: "default_max_str_digits < length (replicate 4301 c)"
  by (simp only: length_replicate default_max_str_digits_def)

lemma str_nat_4300: "str_nat 4300 = ''4300''"
  by (simp add: str_nat.simps [of 4300] str_nat.simps [of 430] str_nat.simps [of 43]
      str_nat.simps [of 4] digit_char_def)

lemma str_nat_4301: "str_nat 4301 = ''4301''"
  by (simp add: str_nat.simps [of 4301] str_nat.simps [of 430] str_nat.simps [of 43]
      str_nat.simps [of 4] digit_char_def)

lemma long_run_message:
  "limit_message @ '': value has '' @ str_nat 4301
     @ '' digits; use sys.set_int_max_str_digits() to increase the limit''
   = ''Exceeds the limit (4300 digits) for integer string conversion: value has 4301 digits; use sys.set_int_max_str_digits() to increase the limit''"
  by (simp add: limit_message_def default_max_str_digits_def str_nat_4300 str_nat_4301)

text \<open>A text that is one run of 4301 equal digits followed by a period.\<close>

lemma extract_label_long_run:
  assumes "isdigit c"
  shows "findall (replicate 4301 c @ ''.'') = [replicate 4301 c]
     \<and> extract_label r (replicate 4301 c @ ''.'') label2desc =
         ([], Inl (ValueError ''Exceeds the limit (4300 digits) for integer string conversion: value has 4301 digits; use sys.set_int_max_str_digits() to increase the limit''))"
proof -
  have ne: "replicate 4301 c \<noteq> []" by (simp only: long_run) simp
  from assms have dig: "list_all isdigit (replicate 4301 c)" by (simp add: list_all_iff)
  have f: "findall (replicate 4301 c @ ''.'') = [replicate 4301 c]"
    using ne dig by (rule findall_single_token)
  have len: "length (replicate 4301 c) = 4301" by (simp only: length_replicate)
  from extract_label_long_token [OF f long_run_length, of r label2desc]
  have "extract_label r (replicate 4301 c @ ''.'') label2desc =
      ([], Inl (ValueError (limit_message @ '': value has '' @ str_nat 4301
             @ '' digits; use sys.set_int_max_str_digits() to increase the limit'')))"
    by (simp only: len)
  with f show ?thesis by (simp only: long_run_message simp_thms)
qed

subsection \<open>Fences\<close>

lemma startswith_iff: "startswith s p \<longleftrightarrow> (\<exists>q. s = p @ q)"
  by (induction s p rule: startswith.induct) auto

lemma match_body_Some:
  "match_body s = Some b \<Longrightarrow>
     \<exists>q. s = b @ ''```'' @ q \<and> (\<forall>j<length b. \<not> startswith (drop j s) ''```'')"
proof (induction s arbitrary: b)
  case Nil
  then show ?case by simp
next
  case (Cons c cs)
  show ?case
  proof (cases "startswith (c # cs) ''```''")
    case True
    with Cons.prems have "b = []" by simp
    with True show ?thesis by (simp add: startswith_iff)
  next
    case False
    with Cons.prems obtain b' where b': "match_body cs = Some b'" and b: "b = c # b'"
      by auto
    from Cons.IH [OF b'] obtain q where q: "cs = b' @ ''```'' @ q"
      and first: "\<forall>j<length b'. \<not> startswith (drop j cs) ''```''" by blast
    have "\<not> startswith (drop j (c # cs)) ''```''" if "j < length b" for j
    proof (cases j)
      case 0
      with False show ?thesis by simp
    next
      case (Suc j')
      with that b first show ?thesis by simp
    qed
    with q b show ?thesis by simp
  qed
qed

lemma match_body_None: "match_body (b @ ''```'' @ q) \<noteq> None"
proof (induction b)
  case Nil
  then show ?case by simp
next
  case (Cons c b)
  then show ?case by (cases "startswith (c # b @ ''```'' @ q) ''```''") auto
qed

lemma match_sql_Some:
  assumes "match_sql s = Some b"
  shows "\<exists>q. s = ''```sql'' @ b @ ''```'' @ q
           \<and> (\<forall>j<length b. \<not> startswith (drop j (b @ ''```'' @ q)) ''```'')"
proof -
  from assms have sw: "startswith s ''```sql''" and mb: "match_body (drop 6 s) = Some b"
    by (auto simp: match_sql_def split: if_splits)
  from sw obtain t where t: "s = ''```sql'' @ t" by (auto simp: startswith_iff)
  then have "drop 6 s = t" by simp
  with mb match_body_Some [of t b] t show ?thesis by auto
qed

lemma match_sql_None_iff:
  "match_sql s = None \<longleftrightarrow> \<not> (\<exists>b q. s = ''```sql'' @ b @ ''```'' @ q)"
proof
  assume "match_sql s = None"
  show "\<not> (\<exists>b q. s = ''```sql'' @ b @ ''```'' @ q)"
  proof
    assume "\<exists>b q. s = ''```sql'' @ b @ ''```'' @ q"
    then obtain b q where s: "s = ''```sql'' @ b @ ''```'' @ q" by blast
    then have "match_sql s = match_body (b @ ''```'' @ q)" by (simp add: match_sql_def)
    with \<open>match_sql s = None\<close> show False using match_body_None [of b q] by simp
  qed
next
  assume n: "\<not> (\<exists>b q. s = ''```sql'' @ b @ ''```'' @ q)"
  show "match_sql s = None"
  proof (cases "match_sql s")
    case None
    then show ?thesis .
  next
    case (Some b)
    with match_sql_Some n show ?thesis by blast
  qed
qed

lemma search_sql_Some:
  "search_sql s = Some b \<Longrightarrow>
     \<exists>pre rest. s = pre @ rest \<and> match_sql rest = Some b
       \<and> (\<forall>i<length pre. match_sql (drop i s) = None)"
proof (induction s)
  case Nil
  then show ?case by simp
next
  case (Cons c cs)
  show ?case
  proof (cases "match_sql (c # cs)")
    case (Some g)
    with Cons.prems have "match_sql (c # cs) = Some b" by simp
    then have "c # cs = [] @ (c # cs) \<and> match_sql (c # cs) = Some b
       \<and> (\<forall>i<length ([]::string). match_sql (drop i (c # cs)) = None)" by simp
    then show ?thesis by blast
  next
    case None
    with Cons.prems have "search_sql cs = Some b" by simp
    from Cons.IH [OF this] obtain pre rest where cs: "cs = pre @ rest"
      and m: "match_sql rest = Some b"
      and first: "\<forall>i<length pre. match_sql (drop i cs) = None" by blast
    have "match_sql (drop i (c # cs)) = None" if "i < length (c # pre)" for i
    proof (cases i)
      case 0
      with None show ?thesis by simp
    next
      case (Suc i')
      with that first show ?thesis by simp
    qed
    with cs m have "c # cs = (c # pre) @ rest \<and> match_sql rest = Some b
       \<and> (\<forall>i<length (c # pre). match_sql (drop i (c # cs)) = None)" by simp
    then show ?thesis by blast
  qed
qed

lemma search_sql_None:
  "search_sql s = None \<Longrightarrow> s = pre @ rest \<Longrightarrow> match_sql rest = None"
proof (induction s arbitrary: pre)
  case Nil
  then show ?case by (simp add: match_sql_def)
next
  case (Cons c cs)
  from Cons.prems(1) have here: "match_sql (c # cs) = None" and later: "search_sql cs = None"
    by (auto split: option.splits)
  show ?case
  proof (cases pre)
    case Nil
    with Cons.prems(2) here show ?thesis by simp
  next
    case (Cons p pre')
    with Cons.prems(2) have "cs = pre' @ rest" by simp
    with Cons.IH later show ?thesis by blast
  qed
qed

lemma parse_sql_block:
  assumes "search_sql s = Some b"
  shows "\<exists>pre post. s = pre @ ''```sql'' @ b @ ''```'' @ post
     \<and> (\<forall>i<length pre. \<not> (\<exists>g q. drop i s = ''```sql'' @ g @ ''```'' @ q))
     \<and> (\<forall>j<length b. \<not> (\<exists>q. drop j (b @ ''```'' @ post) = ''```'' @ q))"
proof -
  from search_sql_Some [OF assms] obtain pre rest where s: "s = pre @ rest"
    and m: "match_sql rest = Some b"
    and first: "\<forall>i<length pre. match_sql (drop i s) = None" by blast
  from match_sql_Some [OF m] obtain post where rest: "rest = ''```sql'' @ b @ ''```'' @ post"
    and near: "\<forall>j<length b. \<not> startswith (drop j (b @ ''```'' @ post)) ''```''" by blast
  from first have "\<forall>i<length pre. \<not> (\<exists>g q. drop i s = ''```sql'' @ g @ ''```'' @ q)"
    by (simp add: match_sql_None_iff)
  moreover from near
  have "\<forall>j<length b. \<not> (\<exists>q. drop j (b @ ''```'' @ post) = ''```'' @ q)"
    by (simp only: startswith_iff)
  ultimately show ?thesis using s rest by blast
qed

lemma search_sql_found:
  assumes "s = pre @ ''```sql'' @ body @ ''```'' @ post"
  shows "\<exists>b. search_sql s = Some b"
proof (cases "search_sql s")
  case None
  from search_sql_None [OF None assms]
  have "match_sql (''```sql'' @ body @ ''```'' @ post) = None" .
  then show ?thesis by (simp only: match_sql_None_iff) blast
next
  case (Some b)
  then show ?thesis by blast
qed

lemma backticks_in_block:
  "6 \<le> length (filter (\<lambda>c. c = CHR 0x60) (pre @ ''```sql'' @ body @ ''```'' @ post))"
  by simp

lemma strip_decomp:
  "\<exists>l t. s = l @ strip s @ t \<and> list_all isspace l \<and> list_all isspace t
     \<and> (strip s = [] \<or> (\<not> isspace (hd (strip s)) \<and> \<not> isspace (last (strip s))))"
proof -
  define u where "u = dropWhile isspace s"
  define l where "l = takeWhile isspace s"
  define t where "t = rev (takeWhile isspace (rev u))"
  have s: "s = l @ u" by (simp add: l_def u_def)
  have str: "strip s = rev (dropWhile isspace (rev u))" by (simp add: strip_def u_def)
  have "rev (dropWhile isspace (rev u)) @ rev (takeWhile isspace (rev u))
          = rev (takeWhile isspace (rev u) @ dropWhile isspace (rev u))"
    by (simp only: rev_append)
  also have "\<dots> = u" by simp
  finally have u: "u = strip s @ t" by (simp add: str t_def)
  have l: "list_all isspace l"
    unfolding l_def list_all_iff using set_takeWhileD by fastforce
  have t: "list_all isspace t"
    unfolding t_def list_all_iff using set_takeWhileD by fastforce
  have ends: "\<not> isspace (hd (strip s)) \<and> \<not> isspace (last (strip s))" if ne: "strip s \<noteq> []"
  proof
    from ne u have "u \<noteq> []" by auto
    then have "\<not> isspace (hd u)" unfolding u_def by (rule hd_dropWhile)
    moreover from u ne have "hd u = hd (strip s)" by (metis hd_append2)
    ultimately show "\<not> isspace (hd (strip s))" by simp
  next
    from ne str have "dropWhile isspace (rev u) \<noteq> []" by simp
    then have "\<not> isspace (hd (dropWhile isspace (rev u)))" by (rule hd_dropWhile)
    moreover from ne str have "last (strip s) = hd (dropWhile isspace (rev u))"
      by (simp add: last_rev)
    ultimately show "\<not> isspace (last (strip s))" by simp
  qed
  from s u l t ends show ?thesis by (metis append_assoc)
qed

section \<open>The claims\<close>

text \<open>
  Throughout, a \<^verbatim>\<open><digits>.\<close> token of a text is a match collected by \<open>findall\<close>, and the
  text ``contains exactly one token'' when \<open>findall\<close> returns a one-element list. The integer
  value of a token is \<open>digits_value\<close> of its digit run. A result is a member of the key set
  when it is \<open>py_str k\<close> for a key \<open>k\<close> of the dictionary: the function returns
  \<^verbatim>\<open>str(prediction)\<close>, so a key shows in the result as its string.
\<close>

subsection \<open>C1: the result and the key set\<close>

text \<open>
  C1 says that for every label set and every text the result of \<^verbatim>\<open>extract_label\<close> is a member
  of the key set, on the multi-match path too. The code does not do that on the multi-match
  path: with the keys 1 and 2 and a text whose first of two tokens is \<^verbatim>\<open>3.\<close>, it returns
  \<^verbatim>\<open>"3"\<close>, which is the string of no key and whose integer value is no key either. The
  single-match branch next to it does test membership and falls back to a key.
\<close>

theorem extract_label_multi_out_of_set:
  "extract_label 0 ''Either 3. migraine or 1. flu'' [(PyInt 1, ''flu''), (PyInt 2, ''cold'')]
     = ([NotExactlyOne [''3'', ''1'']], Inr ''3'')
   \<and> Inr ''3'' \<notin> set (map py_str (keys [(PyInt 1, ''flu''), (PyInt 2, ''cold'')]))
   \<and> py_int ''3'' = Inr 3
   \<and> PyInt 3 \<notin> set (keys [(PyInt 1, ''flu''), (PyInt 2, ''cold'')])"
  by code_simp

subsection \<open>C2: one token whose value is a key\<close>




subsection \<open>C3: more than one token\<close>

text \<open>
  C3. For every label set and every text in which \<^verbatim>\<open>findall\<close> collects more than one
  \<^verbatim>\<open><digits>.\<close> token, \<^verbatim>\<open>extract_label\<close> prints the warning about the number of matches and
  returns the digit run \<open>d\<close> of the first token. That token is the leftmost one: the text is
  \<open>pre @ d @ ''.'' @ post\<close> and no non-empty run of digits followed by a period starts at a
  position inside \<open>pre\<close>. The label set is not consulted: the statement holds for every
  \<open>label2desc\<close>, whether or not the value is one of its keys, and for every state of the
  random source.
\<close>

theorem extract_label_multi_first:
  assumes "findall pred_text = d # d' # ds"
  shows "extract_label r pred_text label2desc = ([NotExactlyOne (d # d' # ds)], Inr d)
     \<and> (\<exists>pre post. pred_text = pre @ d @ CHR ''.'' # post
          \<and> (\<forall>i<length pre.
                \<not> (\<exists>g q. g \<noteq> [] \<and> list_all isdigit g
                       \<and> drop i pred_text = g @ CHR ''.'' # q)))"
proof
  from assms
  show "extract_label r pred_text label2desc = ([NotExactlyOne (d # d' # ds)], Inr d)"
    by (simp add: extract_label_def)
next
  from findall_leftmost [OF assms] obtain pre post
    where "pred_text = pre @ d @ CHR ''.'' # post"
      and "\<forall>i<length pre. match_number (drop i pred_text) = None" by blast
  then show "\<exists>pre post. pred_text = pre @ d @ CHR ''.'' # post
          \<and> (\<forall>i<length pre.
                \<not> (\<exists>g q. g \<noteq> [] \<and> list_all isdigit g
                       \<and> drop i pred_text = g @ CHR ''.'' # q))"
    unfolding match_number_None_iff by blast
qed

theorem extract_label_multi_first_witness:
  "findall ''I think it's either 1. flu or 3. migraine'' = ''1'' # ''3'' # []
   \<and> extract_label 0 ''I think it's either 1. flu or 3. migraine''
         [(PyInt 1, ''flu''), (PyInt 2, ''cold'')]
       = ([NotExactlyOne (''1'' # ''3'' # [])], Inr ''1'')"
proof -
  have h: "findall ''I think it's either 1. flu or 3. migraine'' = ''1'' # ''3'' # []"
    by (simp add: match_number_def isdigit_def)
  show ?thesis
    using h extract_label_multi_first [OF h, of 0 "[(PyInt 1, ''flu''), (PyInt 2, ''cold'')]"]
    by simp
qed

subsection \<open>C4: no token, or one token that is no key\<close>

text \<open>
  C4 says that for every non-empty label set and every text with no token, or with exactly
  one token whose integer value is not a key, \<^verbatim>\<open>extract_label\<close> falls back to a choice among
  the keys. A single token of more than 4300 digits never reaches the fallback:
  \<^verbatim>\<open>int(number)\<close> raises \<^verbatim>\<open>ValueError\<close> before the membership test. With the keys 1 and 2 and
  a text of 4301 sevens and a period, the value of the token is no key and the call raises.
\<close>

theorem extract_label_long_token_counterexample:
  "[(PyInt 1, ''flu''), (PyInt 2, ''cold'')] \<noteq> []
   \<and> findall (replicate 4301 CHR ''7'' @ ''.'') = [replicate 4301 CHR ''7'']
   \<and> PyInt (int (digits_value (replicate 4301 CHR ''7'')))
        \<notin> set (keys [(PyInt 1, ''flu''), (PyInt 2, ''cold'')])
   \<and> snd (extract_label 0 (replicate 4301 CHR ''7'' @ ''.'') [(PyInt 1, ''flu''), (PyInt 2, ''cold'')])
       = Inl (ValueError ''Exceeds the limit (4300 digits) for integer string conversion: value has 4301 digits; use sys.set_int_max_str_digits() to increase the limit'')"
proof -
  have d: "isdigit CHR ''7''" by (simp add: isdigit_def)
  have "10 * digit_val CHR ''7'' \<le> digits_value (CHR ''7'' # CHR ''7'' # replicate 4299 CHR ''7'')"
    by (rule digits_value_two)
  then have "70 \<le> digits_value (replicate 4301 CHR ''7'')"
    by (simp only: long_run [symmetric]) (simp add: digit_val_def)
  then have "PyInt (int (digits_value (replicate 4301 CHR ''7'')))
        \<notin> set (keys [(PyInt 1, ''flu''), (PyInt 2, ''cold'')])"
    by (simp add: keys_def)
  with extract_label_long_run [OF d, of 0 "[(PyInt 1, ''flu''), (PyInt 2, ''cold'')]"]
  show ?thesis by simp
qed

text \<open>
  C4, amended. For every non-empty label set whose integer keys have at most 4300 decimal
  digits, and every text that contains no \<^verbatim>\<open><digits>.\<close> token, or exactly one such token, of
  at most 4300 digits, whose integer value is not a key, \<^verbatim>\<open>extract_label\<close> returns the string
  of a key \<open>k\<close> of the label set, for every state of the random source. When that key is an
  integer, as the keys of a label set are, the result is not the invalid token.
\<close>

theorem extract_label_fallback:
  assumes ne: "label2desc \<noteq> []"
    and lim: "\<forall>i. PyInt i \<in> set (keys label2desc) \<longrightarrow>
                decimal_digits i \<le> default_max_str_digits"
    and tok: "findall pred_text = []
       \<or> (\<exists>number. findall pred_text = [number] \<and> length number \<le> default_max_str_digits
             \<and> PyInt (int (digits_value number)) \<notin> set (keys label2desc))"
  shows "\<exists>k\<in>set (keys label2desc). \<exists>s.
           py_str k = Inr s
           \<and> snd (extract_label r pred_text label2desc) = Inr s
           \<and> ((\<exists>i. k = PyInt i) \<longrightarrow>
                (\<forall>number. findall pred_text = [number] \<longrightarrow> s \<noteq> number))"
proof -
  obtain k where k: "k \<in> set (keys label2desc)"
    and fb: "and_then (random_choice r (keys label2desc)) py_str = py_str k"
    using fallback_member [OF ne] by blast
  obtain s where s: "py_str k = Inr s" using key_str [OF lim k] by blast
  have res: "snd (extract_label r pred_text label2desc) = Inr s"
  proof (cases "findall pred_text = []")
    case True
    with fb s show ?thesis by (simp add: extract_label_none)
  next
    case False
    with tok obtain number where one: "findall pred_text = [number]"
      and len: "length number \<le> default_max_str_digits"
      and out: "PyInt (int (digits_value number)) \<notin> set (keys label2desc)" by blast
    from one have "number \<noteq> []" "list_all isdigit number"
      using findall_single_digits by blast+
    with len have "py_int number = Inr (int (digits_value number))"
      by (simp add: py_int_digits)
    with one out fb s show ?thesis by (simp add: extract_label_single_invalid)
  qed
  have "s \<noteq> number" if i: "k = PyInt i" and one: "findall pred_text = [number]"
    for i number
  proof
    assume eq: "s = number"
    from one have "list_all isdigit number" using findall_single_digits by blast
    with eq i s have "int (digits_value number) = i" using py_str_digits_value by blast
    moreover from tok one have "PyInt (int (digits_value number)) \<notin> set (keys label2desc)"
      by auto
    ultimately show False using k i by simp
  qed
  with k s res show ?thesis by blast
qed

theorem extract_label_fallback_witness:
  "[(PyInt 1, ''flu''), (PyInt 2, ''cold'')] \<noteq> []
   \<and> findall ''3. migraine'' = [''3''] \<and> length ''3'' \<le> default_max_str_digits
   \<and> PyInt (int (digits_value ''3'')) \<notin> set (keys [(PyInt 1, ''flu''), (PyInt 2, ''cold'')])
   \<and> snd (extract_label 5 ''3. migraine'' [(PyInt 1, ''flu''), (PyInt 2, ''cold'')]) = Inr ''2''"
proof -
  let ?L = "[(PyInt 1, ''flu''), (PyInt 2, ''cold'')]"
  have h1: "?L \<noteq> []" by simp
  have d1: "decimal_digits 1 \<le> default_max_str_digits" by code_simp
  have d2: "decimal_digits 2 \<le> default_max_str_digits" by code_simp
  have h2: "\<forall>i. PyInt i \<in> set (keys ?L) \<longrightarrow> decimal_digits i \<le> default_max_str_digits"
    using d1 d2 by (auto simp: keys_def)
  have f: "findall ''3. migraine'' = [''3'']" by (simp add: match_number_def isdigit_def)
  have l: "length ''3'' \<le> default_max_str_digits" by (simp add: default_max_str_digits_def)
  have k: "PyInt (int (digits_value ''3'')) \<notin> set (keys ?L)"
    by (simp add: keys_def digits_value_def digit_val_def)
  have h3: "findall ''3. migraine'' = []
     \<or> (\<exists>number. findall ''3. migraine'' = [number] \<and> length number \<le> default_max_str_digits
           \<and> PyInt (int (digits_value number)) \<notin> set (keys ?L))"
    using f l k by blast
  have v: "snd (extract_label 5 ''3. migraine'' ?L) = Inr ''2''"
    by code_simp
  from extract_label_fallback [OF h1 h2 h3, of 5] h1 f l k v show ?thesis by simp
qed

subsection \<open>C5: the first fenced block\<close>

text \<open>
  C5. For every text that contains a block delimited by the opening fence \<^verbatim>\<open>```sql\<close> (these
  six characters, whatever follows them) and a closing fence \<^verbatim>\<open>```\<close>, \<^verbatim>\<open>parse_sql\<close> prints nothing and returns the content of the first such
  block with leading and trailing whitespace removed (\<open>strip\<close>, see \<open>strip_decomp\<close>): the
  text is \<open>pre @ ''```sql'' @ body @ ''```'' @ post\<close>, no block starts at a position inside
  \<open>pre\<close>, the closing fence is the first one behind the opening fence, and the result is
  \<open>strip body\<close>. For the text \<^verbatim>\<open>prefix ```sql\<close>, line break, \<^verbatim>\<open>SELECT 1;\<close>, line break,
  \<^verbatim>\<open>``` suffix\<close> the result is \<^verbatim>\<open>SELECT 1;\<close>.
\<close>

theorem parse_sql_first_block:
  "((\<exists>pre body post. pred_text = pre @ ''```sql'' @ body @ ''```'' @ post) \<longrightarrow>
      (\<exists>pre body post. pred_text = pre @ ''```sql'' @ body @ ''```'' @ post
          \<and> (\<forall>i<length pre. \<not> (\<exists>g q. drop i pred_text = ''```sql'' @ g @ ''```'' @ q))
          \<and> (\<forall>j<length body. \<not> (\<exists>q. drop j (body @ ''```'' @ post) = ''```'' @ q))
          \<and> parse_sql pred_text = ([], strip body)))
   \<and> parse_sql (''prefix ```sql'' @ [CHR 0x0A] @ ''SELECT 1;'' @ [CHR 0x0A] @ ''``` suffix'')
       = ([], ''SELECT 1;'')"
proof (intro conjI impI)
  assume "\<exists>pre body post. pred_text = pre @ ''```sql'' @ body @ ''```'' @ post"
  then obtain b where b: "search_sql pred_text = Some b"
    using search_sql_found by blast
  then have "parse_sql pred_text = ([], strip b)" by (simp add: parse_sql_def)
  with parse_sql_block [OF b]
  show "\<exists>pre body post. pred_text = pre @ ''```sql'' @ body @ ''```'' @ post
          \<and> (\<forall>i<length pre. \<not> (\<exists>g q. drop i pred_text = ''```sql'' @ g @ ''```'' @ q))
          \<and> (\<forall>j<length body. \<not> (\<exists>q. drop j (body @ ''```'' @ post) = ''```'' @ q))
          \<and> parse_sql pred_text = ([], strip body)"
    by blast
next
  show "parse_sql (''prefix ```sql'' @ [CHR 0x0A] @ ''SELECT 1;'' @ [CHR 0x0A] @ ''``` suffix'')
       = ([], ''SELECT 1;'')"
    by (simp add: parse_sql_def match_sql_def strip_def isspace_def)
qed

theorem parse_sql_first_block_witness:
  "(\<exists>pre body post.
       ''a ```sql SELECT 2; ``` b ```sql SELECT 3; ```'' = pre @ ''```sql'' @ body @ ''```'' @ post)
   \<and> parse_sql ''a ```sql SELECT 2; ``` b ```sql SELECT 3; ```'' = ([], ''SELECT 2;'')"
proof -
  let ?T = "''a ```sql SELECT 2; ``` b ```sql SELECT 3; ```''"
  have "?T = ''a '' @ ''```sql'' @ '' SELECT 2; '' @ ''```'' @ '' b ```sql SELECT 3; ```''"
    by simp
  then have h: "\<exists>pre body post. ?T = pre @ ''```sql'' @ body @ ''```'' @ post" by blast
  have v: "parse_sql ?T = ([], ''SELECT 2;'')"
    by (simp add: parse_sql_def match_sql_def strip_def isspace_def)
  from parse_sql_first_block [of ?T] h v show ?thesis by simp
qed

subsection \<open>C6: no fenced block\<close>

text \<open>
  C6. For every text that contains no block delimited by \<^verbatim>\<open>```sql\<close> and a closing \<^verbatim>\<open>```\<close>,
  \<^verbatim>\<open>parse_sql\<close> prints its warning and returns the input text as it is, untrimmed. It never
  fails: the result type has no error.
\<close>

theorem parse_sql_no_block:
  assumes "\<not> (\<exists>pre body post. pred_text = pre @ ''```sql'' @ body @ ''```'' @ post)"
  shows "parse_sql pred_text = ([NoSQLCodeFound], pred_text)"
proof (cases "search_sql pred_text")
  case None
  then show ?thesis by (simp add: parse_sql_def)
next
  case (Some b)
  from parse_sql_block [OF Some] assms show ?thesis by blast
qed

theorem parse_sql_no_block_witness:
  "\<not> (\<exists>pre body post. '' ```sql SELECT 1; '' = pre @ ''```sql'' @ body @ ''```'' @ post)
   \<and> parse_sql '' ```sql SELECT 1; '' = ([NoSQLCodeFound], '' ```sql SELECT 1; '')"
proof -
  have h: "\<not> (\<exists>pre body post. '' ```sql SELECT 1; '' = pre @ ''```sql'' @ body @ ''```'' @ post)"
  proof
    assume "\<exists>pre body post. '' ```sql SELECT 1; '' = pre @ ''```sql'' @ body @ ''```'' @ post"
    then obtain pre body post
      where e: "'' ```sql SELECT 1; '' = pre @ ''```sql'' @ body @ ''```'' @ post" by blast
    have "6 \<le> length (filter (\<lambda>c. c = CHR 0x60) '' ```sql SELECT 1; '')"
      by (subst e) (rule backticks_in_block)
    then show False by simp
  qed
  show ?thesis using h parse_sql_no_block [OF h] by simp
qed

subsection \<open>C7: two runs on the same input\<close>

text \<open>
  C7 says that two runs of \<^verbatim>\<open>extract_label\<close> on the same label set and text return the same
  result, also when there is no match or the single value is out of the set. In these two
  cases the code calls \<^verbatim>\<open>random.choice\<close>, and two states of the random source give two
  different results: with the keys 1 and 2 and a text without token, the draw 0 gives
  \<^verbatim>\<open>"1"\<close> and the draw 1 gives \<^verbatim>\<open>"2"\<close>.
\<close>

theorem extract_label_random_counterexample:
  "snd (extract_label 0 ''no number here'' [(PyInt 1, ''flu''), (PyInt 2, ''cold'')])
     \<noteq> snd (extract_label 1 ''no number here'' [(PyInt 1, ''flu''), (PyInt 2, ''cold'')])"
  by code_simp

text \<open>
  C7, amended. \<^verbatim>\<open>extract_label\<close> is a function of the text, the label set and the draw of the
  random source. Two runs on the same text and label set print the same warnings and return
  the same result whenever the text has more than one token or one token whose integer value
  is a key. When it has no token, or one token whose value is not a key, they do so if the
  random source gives both runs the same index into the list of keys.
\<close>

theorem extract_label_same_draw:
  assumes "findall pred_text = []
       \<or> (\<exists>number n. findall pred_text = [number] \<and> py_int number = Inr n
             \<and> PyInt n \<notin> set (keys label2desc))
     \<longrightarrow> r1 mod length (keys label2desc) = r2 mod length (keys label2desc)"
  shows "extract_label r1 pred_text label2desc = extract_label r2 pred_text label2desc"
proof -
  consider "findall pred_text = []"
    | number where "findall pred_text = [number]"
    | d d' ds where "findall pred_text = d # d' # ds"
    using list_three_cases [of "findall pred_text"] by blast
  then show ?thesis
  proof cases
    case 1
    with assms show ?thesis by (simp add: extract_label_none random_choice_def)
  next
    case 2
    show ?thesis
    proof (cases "py_int number")
      case (Inl e)
      with 2 show ?thesis by (simp add: extract_label_single_raises)
    next
      case (Inr n)
      show ?thesis
      proof (cases "PyInt n \<in> set (keys label2desc)")
        case True
        with 2 Inr show ?thesis by (simp add: extract_label_single_valid)
      next
        case False
        with 2 Inr assms show ?thesis
          by (simp add: extract_label_single_invalid random_choice_def)
      qed
    qed
  next
    case 3
    then show ?thesis by (simp add: extract_label_def)
  qed
qed

theorem extract_label_same_draw_witness:
  "findall ''no number here'' = []
   \<and> (1::nat) mod length (keys [(PyInt 1, ''flu''), (PyInt 2, ''cold'')])
       = 3 mod length (keys [(PyInt 1, ''flu''), (PyInt 2, ''cold'')])
   \<and> extract_label 1 ''no number here'' [(PyInt 1, ''flu''), (PyInt 2, ''cold'')]
       = extract_label 3 ''no number here'' [(PyInt 1, ''flu''), (PyInt 2, ''cold'')]"
proof -
  let ?L = "[(PyInt 1, ''flu''), (PyInt 2, ''cold'')]"
  have f: "findall ''no number here'' = []" by (simp add: match_number_def isdigit_def)
  have m: "(1::nat) mod length (keys ?L) = 3 mod length (keys ?L)" by code_simp
  from extract_label_same_draw [of "''no number here''" ?L 1 3] f m show ?thesis by simp
qed

subsection \<open>C8: totality\<close>

text \<open>
  C8 says that for every non-empty label set and every input text \<^verbatim>\<open>extract_label\<close> returns
  a string without raising. A text that is a single token of more than 4300 digits makes
  \<^verbatim>\<open>int(number)\<close> raise \<^verbatim>\<open>ValueError\<close>: with the key 1 and a text of 4301 ones and a period
  the call raises.
\<close>

theorem extract_label_raises_counterexample:
  "[(PyInt 1, ''flu'')] \<noteq> []
   \<and> snd (extract_label 0 (replicate 4301 CHR ''1'' @ ''.'') [(PyInt 1, ''flu'')])
       = Inl (ValueError ''Exceeds the limit (4300 digits) for integer string conversion: value has 4301 digits; use sys.set_int_max_str_digits() to increase the limit'')"
proof -
  have d: "isdigit CHR ''1''" by (simp add: isdigit_def)
  from extract_label_long_run [OF d, of 0 "[(PyInt 1, ''flu'')]"] show ?thesis by simp
qed

text \<open>
  C8, amended. For every non-empty label set whose integer keys have at most 4300 decimal
  digits, every input text that is not made of a single token of more than 4300 digits, and
  every state of the random source, \<^verbatim>\<open>extract_label\<close> terminates (\<open>findall\<close> is a total
  function, its termination is proved above), raises no exception and returns a string: the
  result is \<open>Inr s\<close>. The keys may be integers or strings.
\<close>

theorem extract_label_total:
  assumes ne: "label2desc \<noteq> []"
    and lim: "\<forall>i. PyInt i \<in> set (keys label2desc) \<longrightarrow>
                decimal_digits i \<le> default_max_str_digits"
    and tok: "\<forall>number. findall pred_text = [number] \<longrightarrow>
                length number \<le> default_max_str_digits"
  shows "\<exists>s. snd (extract_label r pred_text label2desc) = Inr s"
proof -
  obtain k where k: "k \<in> set (keys label2desc)"
    and fb: "and_then (random_choice r (keys label2desc)) py_str = py_str k"
    using fallback_member [OF ne] by blast
  obtain s where s: "py_str k = Inr s" using key_str [OF lim k] by blast
  consider "findall pred_text = []"
    | number where "findall pred_text = [number]"
    | d d' ds where "findall pred_text = d # d' # ds"
    using list_three_cases [of "findall pred_text"] by blast
  then show ?thesis
  proof cases
    case 1
    with fb s show ?thesis by (simp add: extract_label_none)
  next
    case 2
    then have "number \<noteq> []" "list_all isdigit number"
      using findall_single_digits by blast+
    moreover from 2 tok have "length number \<le> default_max_str_digits" by blast
    ultimately have n: "py_int number = Inr (int (digits_value number))"
      by (rule py_int_digits)
    show ?thesis
    proof (cases "PyInt (int (digits_value number)) \<in> set (keys label2desc)")
      case True
      with 2 n show ?thesis by (simp add: extract_label_single_valid)
    next
      case False
      with 2 n fb s show ?thesis by (simp add: extract_label_single_invalid)
    qed
  next
    case 3
    then show ?thesis by (simp add: extract_label_def)
  qed
qed

theorem extract_label_total_witness:
  "[(PyStr ''1'', ''flu''), (PyStr ''2'', ''cold'')] \<noteq> []
   \<and> findall ''no number here'' = []
   \<and> (\<exists>s. snd (extract_label 3 ''no number here'' [(PyStr ''1'', ''flu''), (PyStr ''2'', ''cold'')])
          = Inr s)"
proof -
  let ?L = "[(PyStr ''1'', ''flu''), (PyStr ''2'', ''cold'')]"
  have h1: "?L \<noteq> []" by simp
  have h2: "\<forall>i. PyInt i \<in> set (keys ?L) \<longrightarrow> decimal_digits i \<le> default_max_str_digits"
    by (simp add: keys_def)
  have f: "findall ''no number here'' = []" by (simp add: match_number_def isdigit_def)
  then have h3: "\<forall>number. findall ''no number here'' = [number] \<longrightarrow>
                length number \<le> default_max_str_digits" by simp
  from extract_label_total [OF h1 h2 h3, of 3] h1 f show ?thesis by simp
qed

text \<open>
  Remark. The label set has to be non-empty: on an empty dictionary the fallback branches
  print their warning and \<^verbatim>\<open>random.choice\<close> raises \<^verbatim>\<open>IndexError\<close>.
\<close>

lemma extract_label_empty_dict:
  "extract_label r ''no number here'' [] = ([NoExtractedNumbers ''no number here''], Inl IndexError)"
  by (simp add: extract_label_def match_number_def isdigit_def random_choice_def keys_def
      and_then_def)

subsection \<open>C9: the dispatch on the benchmark name\<close>

text \<open>
  C9. A benchmark name that starts with \<^verbatim>\<open>classification\<close> yields the output-token budget 32
  and the classification agent; one that starts with \<^verbatim>\<open>sql_generation\<close> yields the budget 512
  and the SQL agent; every other name raises \<^verbatim>\<open>ValueError\<close> with the message
  \<^verbatim>\<open>Invalid benchmark name: \<close> followed by the name.
\<close>

theorem select_agent_dispatch:
  "select_agent (''classification'' @ rest) = Inr (32, ClassificationAgent)
   \<and> select_agent (''sql_generation'' @ rest) = Inr (512, SQLGenerationAgent)
   \<and> (\<not> (\<exists>q. bench_name = ''classification'' @ q)
        \<and> \<not> (\<exists>q. bench_name = ''sql_generation'' @ q) \<longrightarrow>
      select_agent bench_name = Inl (ValueError (''Invalid benchmark name: '' @ bench_name)))"
  by (simp add: select_agent_def startswith_iff)

theorem select_agent_dispatch_witness:
  "\<not> (\<exists>q. ''Classification'' = ''classification'' @ q)
   \<and> \<not> (\<exists>q. ''Classification'' = ''sql_generation'' @ q)
   \<and> select_agent ''Classification''
       = Inl (ValueError ''Invalid benchmark name: Classification'')"
proof -
  have h1: "\<not> (\<exists>q. ''Classification'' = ''classification'' @ q)" by simp
  have h2: "\<not> (\<exists>q. ''Classification'' = ''sql_generation'' @ q)" by simp
  from select_agent_dispatch [of "''''" "''Classification''"] h1 h2 show ?thesis by simp
qed

subsection \<open>C10: string keys\<close>

text \<open>
  C10 says that with string keys and exactly one token the validated branch is unreachable
  and \<^verbatim>\<open>extract_label\<close> always takes the random-fallback branch. The first half holds. The
  second fails on a token of more than 4300 digits: \<^verbatim>\<open>int(number)\<close> raises before the test,
  nothing is printed and no key is chosen.
\<close>

theorem extract_label_str_keys_counterexample:
  "findall (replicate 4301 CHR ''2'' @ ''.'') = [replicate 4301 CHR ''2'']
   \<and> extract_label 0 (replicate 4301 CHR ''2'' @ ''.'')
         [(PyStr ''1'', ''flu''), (PyStr ''2'', ''cold'')]
       = ([], Inl (ValueError ''Exceeds the limit (4300 digits) for integer string conversion: value has 4301 digits; use sys.set_int_max_str_digits() to increase the limit''))"
proof -
  have d: "isdigit CHR ''2''" by (simp add: isdigit_def)
  from extract_label_long_run [OF d, of 0 "[(PyStr ''1'', ''flu''), (PyStr ''2'', ''cold'')]"]
  show ?thesis by simp
qed

text \<open>
  C10, amended. Let the text contain exactly one \<^verbatim>\<open><digits>.\<close> token. If all keys of
  \<^verbatim>\<open>label2desc\<close> are strings, as the annotation \<^verbatim>\<open>dict[str, str]\<close> prescribes, the validated
  return is unreachable, and when the token has at most 4300 digits the test
  \<^verbatim>\<open>int(number) in label2desc\<close> fails and \<^verbatim>\<open>extract_label\<close> takes the random-fallback branch:
  it prints the not-in-label-set warning and returns the string of what \<^verbatim>\<open>random.choice\<close>
  gives. Whenever the validated return happens (a string is returned and nothing is printed),
  the integer value of the token is a key of the dictionary, so the dictionary has an
  integer key.
\<close>

theorem extract_label_str_keys:
  assumes "findall pred_text = [number]"
  shows "((\<forall>k\<in>set (keys label2desc). \<exists>s. k = PyStr s) \<longrightarrow>
            \<not> (\<exists>s. extract_label r pred_text label2desc = ([], Inr s))
            \<and> (length number \<le> default_max_str_digits \<longrightarrow>
                 extract_label r pred_text label2desc =
                   ([NotFoundInLabelSet pred_text],
                    and_then (random_choice r (keys label2desc)) py_str)))
       \<and> ((\<exists>s. extract_label r pred_text label2desc = ([], Inr s)) \<longrightarrow>
            PyInt (int (digits_value number)) \<in> set (keys label2desc))"
proof -
  have dig: "number \<noteq> []" "list_all isdigit number"
    using findall_single_digits [OF assms] by blast+
  have valid: "PyInt (int (digits_value number)) \<in> set (keys label2desc)"
    if "\<exists>s. extract_label r pred_text label2desc = ([], Inr s)"
  proof (cases "py_int number")
    case (Inl e)
    with assms that show ?thesis by (simp add: extract_label_single_raises)
  next
    case (Inr n)
    then have n: "n = int (digits_value number)" using py_int_Inr by blast
    show ?thesis
    proof (rule ccontr)
      assume "PyInt (int (digits_value number)) \<notin> set (keys label2desc)"
      with assms Inr n that show False by (simp add: extract_label_single_invalid)
    qed
  qed
  have str: "\<not> (\<exists>s. extract_label r pred_text label2desc = ([], Inr s))
            \<and> (length number \<le> default_max_str_digits \<longrightarrow>
                 extract_label r pred_text label2desc =
                   ([NotFoundInLabelSet pred_text],
                    and_then (random_choice r (keys label2desc)) py_str))"
    if all: "\<forall>k\<in>set (keys label2desc). \<exists>s. k = PyStr s"
  proof
    from all have out: "PyInt (int (digits_value number)) \<notin> set (keys label2desc)" by auto
    with valid show "\<not> (\<exists>s. extract_label r pred_text label2desc = ([], Inr s))" by blast
    show "length number \<le> default_max_str_digits \<longrightarrow>
                 extract_label r pred_text label2desc =
                   ([NotFoundInLabelSet pred_text],
                    and_then (random_choice r (keys label2desc)) py_str)"
    proof
      assume "length number \<le> default_max_str_digits"
      with dig have "py_int number = Inr (int (digits_value number))"
        by (simp add: py_int_digits)
      with assms out show "extract_label r pred_text label2desc =
                   ([NotFoundInLabelSet pred_text],
                    and_then (random_choice r (keys label2desc)) py_str)"
        by (simp add: extract_label_single_invalid)
    qed
  qed
  from valid str show ?thesis by blast
qed

theorem extract_label_str_keys_witness:
  "findall ''2. cold'' = [''2''] \<and> length ''2'' \<le> default_max_str_digits
   \<and> extract_label 0 ''2. cold'' [(PyStr ''1'', ''flu''), (PyStr ''2'', ''cold'')]
       = ([NotFoundInLabelSet ''2. cold''], Inr ''1'')"
proof -
  let ?L = "[(PyStr ''1'', ''flu''), (PyStr ''2'', ''cold'')]"
  have f: "findall ''2. cold'' = [''2'']" by (simp add: match_number_def isdigit_def)
  have l: "length ''2'' \<le> default_max_str_digits" by (simp add: default_max_str_digits_def)
  have s: "\<forall>k\<in>set (keys ?L). \<exists>s. k = PyStr s" by (simp add: keys_def)
  from extract_label_str_keys [OF f, of ?L 0] s f l show ?thesis
    by (simp add: random_choice_def keys_def and_then_def)
qed

end
